theory Spec2Isabelle
  imports Complex_Main "HOL-Library.Word"
begin

section \<open>Strings and numbers of the JavaScript runtime\<close>

text \<open>
  A JavaScript string is a sequence of UTF-16 code units; \<open>length\<close>, \<open>charAt\<close> and a
  regular expression without the \<open>u\<close> flag all work on code units. ASCII literals of the
  source are written with \<open>ascii\<close>.
\<close>

type_synonym code_unit = "16 word"
type_synonym jsstring = "code_unit list"

definition ascii :: "string \<Rightarrow> jsstring" where
  "ascii s = map of_char s"

text \<open>
  The class \<open>\s\<close> of a regular expression, which is also the set of characters that
  \<open>String.prototype.trim\<close> removes: WhiteSpace and LineTerminator of ECMAScript.
\<close>

definition isSpace :: "code_unit \<Rightarrow> bool" where
  "isSpace c \<longleftrightarrow>
     c \<in> set [0x09, 0x0A, 0x0B, 0x0C, 0x0D, 0x20, 0xA0, 0x1680,
              0x2028, 0x2029, 0x202F, 0x205F, 0x3000, 0xFEFF]
     \<or> (0x2000 \<le> c \<and> c \<le> 0x200A)"

definition trim :: "jsstring \<Rightarrow> jsstring" where
  "trim s = rev (dropWhile isSpace (rev (dropWhile isSpace s)))"

text \<open>\<open>s.charAt(i)\<close>: the string of the one code unit at \<open>i\<close>, the empty string out of range.\<close>

definition charAt :: "jsstring \<Rightarrow> nat \<Rightarrow> jsstring" where
  "charAt s i = (if i < length s then [s ! i] else [])"

text \<open>
  \<open>xs[j] = v\<close> on a JavaScript array: an index below the length overwrites, an index at
  the length appends, and an index beyond it leaves holes, whose value nothing is known
  about.
\<close>

definition put :: "'a list \<Rightarrow> nat \<Rightarrow> 'a \<Rightarrow> 'a list" where
  "put xs j v =
     (if j < length xs then xs[j := v]
      else xs @ replicate (j - length xs) undefined @ [v])"

text \<open>\<open>m[i][j] = v\<close> on an array of arrays whose row \<open>i\<close> exists.\<close>

definition put2 :: "'a list list \<Rightarrow> nat \<Rightarrow> nat \<Rightarrow> 'a \<Rightarrow> 'a list list" where
  "put2 m i j v = m[i := put (m ! i) j v]"

text \<open>
  The result of \<open>parseInt\<close> on the value of an input field: \<open>NaN\<close> when the text has no
  leading integer (the empty field, a text that is not a number), otherwise the integer.
  \<open>truthy\<close> is the conversion to a boolean that \<open>&&\<close>, \<open>||\<close> and \<open>if\<close> apply: \<open>NaN\<close> and
  \<open>0\<close> are false.
\<close>

datatype jsnum = NaN | Num int

fun truthy :: "jsnum \<Rightarrow> bool" where
  "truthy NaN = False"
| "truthy (Num n) = (n \<noteq> 0)"

text \<open>\<open>x || d\<close> where \<open>d\<close> is a nonzero integer literal.\<close>

fun orElse :: "jsnum \<Rightarrow> int \<Rightarrow> int" where
  "orElse NaN d = d"
| "orElse (Num n) d = (if n \<noteq> 0 then n else d)"

section \<open>Configuration\<close>

datatype hintType = image | season | episodeNumber

fun hintCosts :: "hintType \<Rightarrow> int" where
  "hintCosts image = 30"
| "hintCosts season = 20"
| "hintCosts episodeNumber = 40"

definition startingPoints :: int where "startingPoints = 100"
definition bonusPoints_season :: int where "bonusPoints_season = 25"
definition bonusPoints_episode :: int where "bonusPoints_episode = 50"
definition minQuoteWords :: nat where "minQuoteWords = 5"
definition similarityThreshold :: real where "similarityThreshold = 0.75"

section \<open>Fuzzy matching\<close>

text \<open>
  \<open>str.replace(/[...]/g, r)\<close> for a class of single code units: every code unit of the
  class is replaced by \<open>r\<close>.
\<close>

definition replaceClass :: "(code_unit \<Rightarrow> bool) \<Rightarrow> jsstring \<Rightarrow> jsstring \<Rightarrow> jsstring" where
  "replaceClass cls r s = concat (map (\<lambda>c. if cls c then r else [c]) s)"

text \<open>The complement of the class \<open>[^a-z0-9\s]\<close>: the code units that survive the stripping.\<close>

definition keptChar :: "code_unit \<Rightarrow> bool" where
  "keptChar c \<longleftrightarrow> (0x61 \<le> c \<and> c \<le> 0x7A) \<or> (0x30 \<le> c \<and> c \<le> 0x39) \<or> isSpace c"

text \<open>\<open>str.replace(/\s+/g, ' ')\<close>: every maximal run of white space becomes one space.\<close>

function collapseSpaces :: "jsstring \<Rightarrow> jsstring" where
  "collapseSpaces [] = []"
| "collapseSpaces (c # cs) =
     (if isSpace c then 0x20 # collapseSpaces (dropWhile isSpace cs)
      else c # collapseSpaces cs)"
  by pat_completeness auto
termination
  by (relation "measure length") (auto simp: le_imp_less_Suc length_dropWhile_le)

text \<open>
  \<open>normalizeString\<close>. The case table of \<open>String.prototype.toLowerCase\<close> belongs to the
  runtime, not to the repository, and is a parameter. Both code units of the class
  \<open>['']\<close> in the source are the apostrophe \<open>0x27\<close>, both of \<open>[""]\<close> the quotation mark \<open>0x22\<close>.
\<close>

definition normalizeString :: "(jsstring \<Rightarrow> jsstring) \<Rightarrow> jsstring \<Rightarrow> jsstring" where
  "normalizeString toLowerCase str =
     trim
       (collapseSpaces
         (replaceClass (\<lambda>c. \<not> keptChar c) []
           (replaceClass (\<lambda>c. c \<in> set [0x22, 0x22]) [0x22]
             (replaceClass (\<lambda>c. c \<in> set [0x27, 0x27]) [0x27]
               (toLowerCase str)))))"

text \<open>
  \<open>levenshteinDistance\<close>: the three loops of the source over the array of rows. The
  first gives every row \<open>i\<close> the one cell \<open>i\<close>, the second writes row \<open>0\<close>, the nested
  loops extend row \<open>i\<close> cell by cell.
\<close>

definition cellValue :: "jsstring \<Rightarrow> jsstring \<Rightarrow> nat list list \<Rightarrow> nat \<Rightarrow> nat \<Rightarrow> nat" where
  "cellValue a b matrix i j =
     (if charAt b (i - 1) = charAt a (j - 1) then matrix ! (i - 1) ! (j - 1)
      else min (matrix ! (i - 1) ! (j - 1) + 1)
             (min (matrix ! i ! (j - 1) + 1) (matrix ! (i - 1) ! j + 1)))"

definition levenshteinDistance :: "jsstring \<Rightarrow> jsstring \<Rightarrow> nat" where
  "levenshteinDistance a b =
     (let matrix0 = foldl (\<lambda>m i. put m i [i]) [] [0..<Suc (length b)];
          matrix1 = foldl (\<lambda>m j. put2 m 0 j j) matrix0 [0..<Suc (length a)];
          matrix2 =
            foldl (\<lambda>m i. foldl (\<lambda>m j. put2 m i j (cellValue a b m i j)) m [1..<Suc (length a)])
              matrix1 [1..<Suc (length b)]
      in matrix2 ! length b ! length a)"

text \<open>
  \<open>similarity\<close>. The distance and the longer length are integers; their quotient and
  its difference from 1 are taken in the reals.
\<close>

definition similarity :: "(jsstring \<Rightarrow> jsstring) \<Rightarrow> jsstring \<Rightarrow> jsstring \<Rightarrow> real" where
  "similarity toLowerCase a b =
     (let normA = normalizeString toLowerCase a;
          normB = normalizeString toLowerCase b
      in if normA = normB then 1
         else let maxLen = max (length normA) (length normB)
              in if maxLen = 0 then 1
                 else let distance = levenshteinDistance normA normB
                      in 1 - real distance / real maxLen)"

text \<open>\<open>checkAnswer\<close>, on the scene of the round.\<close>

record episode =
  Season :: int
  EpisodeNumber :: int
  Title :: jsstring

record subtitle =
  Content :: jsstring

text \<open>
  The response of the provider (\<open>Frame\<close> only feeds the image address and is left out).
  \<open>Subtitles\<close> is \<open>None\<close> when the field is missing or null.
\<close>

record frinkiacResponse =
  Episode :: episode
  Subtitles :: "subtitle list option"

record answer =
  correct :: bool
  similarity_of :: real
  actualTitle :: jsstring

definition checkAnswer :: "(jsstring \<Rightarrow> jsstring) \<Rightarrow> frinkiacResponse \<Rightarrow> jsstring \<Rightarrow> answer" where
  "checkAnswer toLowerCase sc guess =
     (let correctTitle = Title (Episode sc);
          sim = similarity toLowerCase guess correctTitle
      in \<lparr>correct = (sim \<ge> similarityThreshold), similarity_of = sim,
          actualTitle = correctTitle\<rparr>)"

section \<open>Validation\<close>

text \<open>\<open>parts.join(sep)\<close>.\<close>

fun join :: "jsstring \<Rightarrow> jsstring list \<Rightarrow> jsstring" where
  "join sep [] = []"
| "join sep [x] = x"
| "join sep (x # y # ys) = x @ sep @ join sep (y # ys)"

definition getQuoteText :: "frinkiacResponse \<Rightarrow> jsstring" where
  "getQuoteText sc =
     (case Subtitles sc of
        None \<Rightarrow> []
      | Some subs \<Rightarrow> if length subs = 0 then [] else join [0x20] (map Content subs))"

text \<open>
  \<open>str.split(/\s+/)\<close>: the pieces between the maximal runs of white space; a run at
  either end leaves an empty piece there, and the empty string gives one empty piece.
\<close>

function splitSpaces :: "jsstring \<Rightarrow> jsstring list" where
  "splitSpaces s =
     (let w = takeWhile (\<lambda>c. \<not> isSpace c) s;
          r = dropWhile (\<lambda>c. \<not> isSpace c) s
      in if r = [] then [w] else w # splitSpaces (dropWhile isSpace r))"
  by pat_completeness auto
termination
proof (relation "measure length")
  show "wf (measure length)" by simp
next
  fix s w r :: jsstring
  assume r: "r = dropWhile (\<lambda>c. \<not> isSpace c) s" and ne: "r \<noteq> []"
  then have "isSpace (hd r)" using hd_dropWhile[of "\<lambda>c. \<not> isSpace c" s] by simp
  with ne have "dropWhile isSpace r = dropWhile isSpace (tl r)" by (cases r) simp_all
  then have "length (dropWhile isSpace r) \<le> length (tl r)"
    by (metis length_dropWhile_le)
  also have "\<dots> < length r" using ne by simp
  also have "\<dots> \<le> length s" using r by (simp add: length_dropWhile_le)
  finally show "(dropWhile isSpace r, s) \<in> measure length" by simp
qed

text \<open>
  \<open>str.match(/\[[^\]]+\]/g)\<close>, the empty list standing for \<open>null\<close>: from left to right, an
  opening bracket, at least one code unit other than the closing bracket, and the next
  closing bracket; the search goes on behind a match, and one code unit further where
  there is none.
\<close>

function bracketMatches :: "jsstring \<Rightarrow> jsstring list" where
  "bracketMatches [] = []"
| "bracketMatches (c # cs) =
     (if c = 0x5B then
        (let body = takeWhile (\<lambda>d. d \<noteq> 0x5D) cs;
             rest = dropWhile (\<lambda>d. d \<noteq> 0x5D) cs
         in if body \<noteq> [] \<and> rest \<noteq> []
            then (c # body @ [hd rest]) # bracketMatches (tl rest)
            else bracketMatches cs)
      else bracketMatches cs)"
  by pat_completeness auto
termination
  by (relation "measure length")
    (auto intro!: le_imp_less_Suc le_trans[OF diff_le_self] length_dropWhile_le)

definition startsWith :: "jsstring \<Rightarrow> jsstring \<Rightarrow> bool" where
  "startsWith s p \<longleftrightarrow> take (length p) s = p"

record range =
  range_min :: int
  range_max :: int

text \<open>\<open>isValidQuote\<close>, with \<open>state.seasonRange\<close> as its first argument.\<close>

definition isValidQuote :: "range \<Rightarrow> frinkiacResponse \<Rightarrow> bool" where
  "isValidQuote seasonRange sc =
     (let season = Season (Episode sc) in
      if season < range_min seasonRange \<or> season > range_max seasonRange then False
      else
        let quote = getQuoteText sc in
        if quote = [] then False
        else
          let words = splitSpaces (trim quote) in
          if length words < minQuoteWords then False
          else if startsWith (trim quote) [0x5B] then False
          else
            let bracketedContent = bracketMatches quote in
            if bracketedContent \<noteq> [] \<and>
               real (length (concat bracketedContent)) > real (length quote) * 0.5
            then False
            else True)"

section \<open>Scene acquisition\<close>

datatype error = NoValidSceneFound | FetchFailed | TypeError

text \<open>
  What one call of \<open>fetchRandomScene\<close> gives: a response, or a rejected promise. The
  provider is the sequence of the outcomes of the successive calls.
\<close>

datatype fetched = Response frinkiacResponse | Failure

definition maxAttempts :: nat where "maxAttempts = 50"

text \<open>
  The loop of \<open>getValidScene\<close>; \<open>fetches\<close> counts the calls of \<open>fetchRandomScene\<close> made so
  far, and is returned with the result.
\<close>

function getValidScene_loop ::
  "range \<Rightarrow> (nat \<Rightarrow> fetched) \<Rightarrow> nat \<Rightarrow> nat \<Rightarrow> (error + frinkiacResponse) \<times> nat" where
  "getValidScene_loop seasonRange fetchRandomScene attempts fetches =
     (if attempts < maxAttempts then
        (case fetchRandomScene fetches of
           Failure \<Rightarrow> (Inl FetchFailed, Suc fetches)
         | Response sc \<Rightarrow>
             if isValidQuote seasonRange sc then (Inr sc, Suc fetches)
             else getValidScene_loop seasonRange fetchRandomScene (Suc attempts) (Suc fetches))
      else (Inl NoValidSceneFound, fetches))"
  by pat_completeness auto
termination
  by (relation "measure (\<lambda>(r, f, attempts, fetches). maxAttempts - attempts)") auto

definition getValidScene :: "range \<Rightarrow> (nat \<Rightarrow> fetched) \<Rightarrow> (error + frinkiacResponse) \<times> nat" where
  "getValidScene seasonRange fetchRandomScene =
     getValidScene_loop seasonRange fetchRandomScene 0 0"

section \<open>Game logic\<close>

record state =
  scene :: "frinkiacResponse option"
  roundPoints :: int
  totalPoints :: int
  roundsPlayed :: int
  revealed :: "hintType set"
  guessed :: bool
  won :: bool
  seasonRange :: range

definition initialState :: state where
  "initialState =
     \<lparr>scene = None, roundPoints = startingPoints, totalPoints = 0, roundsPlayed = 0,
      revealed = {}, guessed = False, won = False,
      seasonRange = \<lparr>range_min = 1, range_max = 9\<rparr>\<rparr>"

text \<open>
  The input fields that the handlers read: the text of the title guess, and for the four
  numeric fields the result of \<open>parseInt\<close> on their value.
\<close>

record inputs =
  seasonMin :: jsnum
  seasonMax :: jsnum
  guessInput :: jsstring
  guessSeason :: jsnum
  guessEpisode :: jsnum

definition revealHint :: "hintType \<Rightarrow> state \<Rightarrow> state" where
  "revealHint hint s =
     (if hint \<in> revealed s \<or> guessed s then s
      else
        let s1 = s\<lparr>roundPoints := roundPoints s - hintCosts hint\<rparr>;
            s2 = s1\<lparr>roundPoints := max 0 (roundPoints s1)\<rparr>
        in s2\<lparr>revealed := insert hint (revealed s2)\<rparr>)"

definition getSeasonRange :: "inputs \<Rightarrow> range" where
  "getSeasonRange els =
     (let mn = orElse (seasonMin els) 1;
          mx = orElse (seasonMax els) 9
      in \<lparr>range_min = max 1 (min mn mx), range_max = min 20 (max mn mx)\<rparr>)"

text \<open>
  \<open>startNewRound\<close>: the season range is stored before the acquisition; a failed
  acquisition is caught and leaves the rest of the state as it was.
\<close>

definition startNewRound :: "inputs \<Rightarrow> (nat \<Rightarrow> fetched) \<Rightarrow> state \<Rightarrow> state" where
  "startNewRound els fetchRandomScene s =
     (let s1 = s\<lparr>seasonRange := getSeasonRange els\<rparr> in
      case fst (getValidScene (seasonRange s1) fetchRandomScene) of
        Inr sc \<Rightarrow>
          s1\<lparr>scene := Some sc, roundPoints := startingPoints, revealed := {},
             guessed := False, won := False\<rparr>
      | Inl err \<Rightarrow> s1)"

text \<open>The lines of \<open>bonusText\<close>, by their kind and the numbers they show.\<close>

datatype bonusLine =
    SeasonCorrect int
  | SeasonMismatch int int
  | EpisodeCorrect int
  | EpisodeMismatch int int

text \<open>
  What \<open>showResult\<close> writes to the result panel. The average is shown with one decimal
  by \<open>toFixed\<close>; \<open>sessionAvg\<close> is the quotient before that, and \<open>None\<close> where the divisor
  is zero and the quotient is no finite number.
\<close>

record resultPanel =
  resultCorrect :: bool
  bonusResult :: "bonusLine list"
  roundScoreResult :: int
  sessionTotal :: int
  sessionRounds :: int
  sessionAvg :: "real option"

definition showResult :: "state \<Rightarrow> answer \<Rightarrow> bonusLine list \<Rightarrow> resultPanel" where
  "showResult s result bonusText =
     \<lparr>resultCorrect = correct result,
      bonusResult = bonusText,
      roundScoreResult = roundPoints s,
      sessionTotal = totalPoints s,
      sessionRounds = roundsPlayed s,
      sessionAvg =
        (if roundsPlayed s = 0 then None
         else Some (real_of_int (totalPoints s) / real_of_int (roundsPlayed s)))\<rparr>"

text \<open>The two \<open>if\<close>/\<open>else if\<close> chains of \<open>submitGuess\<close> over the structured guesses.\<close>

definition seasonBonus :: "jsnum \<Rightarrow> int \<Rightarrow> int \<times> bonusLine list" where
  "seasonBonus guessedSeason actualSeason =
     (if truthy guessedSeason \<and> guessedSeason = Num actualSeason
      then (bonusPoints_season, [SeasonCorrect bonusPoints_season])
      else if truthy guessedSeason
      then (0, [case guessedSeason of Num g \<Rightarrow> SeasonMismatch g actualSeason])
      else (0, []))"

definition episodeBonus :: "jsnum \<Rightarrow> int \<Rightarrow> int \<times> bonusLine list" where
  "episodeBonus guessedEpisode actualEpisode =
     (if truthy guessedEpisode \<and> guessedEpisode = Num actualEpisode
      then (bonusPoints_episode, [EpisodeCorrect bonusPoints_episode])
      else if truthy guessedEpisode
      then (0, [case guessedEpisode of Num g \<Rightarrow> EpisodeMismatch g actualEpisode])
      else (0, []))"

text \<open>
  \<open>submitGuess\<close>: the new state and the result panel when one is shown. Without a scene
  the access \<open>state.scene.Episode\<close> in \<open>checkAnswer\<close> throws before anything is written.
\<close>

definition submitGuess ::
  "(jsstring \<Rightarrow> jsstring) \<Rightarrow> inputs \<Rightarrow> state \<Rightarrow> error + state \<times> resultPanel option" where
  "submitGuess toLowerCase els s =
     (if guessed s then Inr (s, None)
      else
        let guess = trim (guessInput els) in
        if guess = [] then Inr (s, None)
        else
          case scene s of
            None \<Rightarrow> Inl TypeError
          | Some sc \<Rightarrow>
              let result = checkAnswer toLowerCase sc guess;
                  s1 = s\<lparr>guessed := True, won := correct result\<rparr>;
                  (seasonPoints, seasonText) =
                    seasonBonus (guessSeason els) (Season (Episode sc));
                  (episodePoints, episodeText) =
                    episodeBonus (guessEpisode els) (EpisodeNumber (Episode sc));
                  bonusPoints = 0 + seasonPoints + episodePoints;
                  bonusText = seasonText @ episodeText;
                  s2 = (if \<not> won s1 then s1\<lparr>roundPoints := 0\<rparr> else s1);
                  s3 = s2\<lparr>roundPoints := roundPoints s2 + bonusPoints\<rparr>;
                  s4 = s3\<lparr>totalPoints := totalPoints s3 + roundPoints s3\<rparr>;
                  s5 = s4\<lparr>roundsPlayed := roundsPlayed s4 + 1\<rparr>
              in Inr (s5, Some (showResult s5 result bonusText)))"

text \<open>
  The handlers that \<open>init\<close> attaches, as events; a run of the page applies them in order
  from the initial state and collects the result panels shown.
\<close>

datatype event =
    ClickReveal hintType
  | ClickSubmit inputs
  | ClickNextRound inputs "nat \<Rightarrow> fetched"

fun handle :: "(jsstring \<Rightarrow> jsstring) \<Rightarrow> event \<Rightarrow> state \<Rightarrow> state \<times> resultPanel list" where
  "handle toLowerCase (ClickReveal hint) s = (revealHint hint s, [])"
| "handle toLowerCase (ClickSubmit els) s =
     (case submitGuess toLowerCase els s of
        Inl err \<Rightarrow> (s, [])
      | Inr (s', None) \<Rightarrow> (s', [])
      | Inr (s', Some panel) \<Rightarrow> (s', [panel]))"
| "handle toLowerCase (ClickNextRound els fetchRandomScene) s =
     (startNewRound els fetchRandomScene s, [])"

fun run :: "(jsstring \<Rightarrow> jsstring) \<Rightarrow> event list \<Rightarrow> state \<Rightarrow> state \<times> resultPanel list" where
  "run toLowerCase [] s = (s, [])"
| "run toLowerCase (e # es) s =
     (let (s1, shown1) = handle toLowerCase e s;
          (s2, shown2) = run toLowerCase es s1
      in (s2, shown1 @ shown2))"

section \<open>Notions of the specification and of the proofs\<close>

text \<open>
  The Levenshtein distance as the specification words it: \<open>edits xs ys n\<close> holds when \<open>xs\<close>
  is turned into \<open>ys\<close> by \<open>n\<close> operations of cost one (substituting, deleting or inserting
  one code unit), equal code units being kept at no cost. The distance is the least
  such \<open>n\<close>. \<open>lev\<close> is the recurrence of the table on lists, and \<open>cell a b i j\<close> the value
  that the table of the source holds in row \<open>i\<close> and column \<open>j\<close> once it is written.
\<close>

inductive edits :: "'a list \<Rightarrow> 'a list \<Rightarrow> nat \<Rightarrow> bool" where
  done_e: "edits [] [] 0"
| keep: "edits xs ys n \<Longrightarrow> edits (x # xs) (x # ys) n"
| substitute: "edits xs ys n \<Longrightarrow> edits (x # xs) (y # ys) (Suc n)"
| delete: "edits xs ys n \<Longrightarrow> edits (x # xs) ys (Suc n)"
| insert: "edits xs ys n \<Longrightarrow> edits xs (y # ys) (Suc n)"

fun lev :: "'a list \<Rightarrow> 'a list \<Rightarrow> nat" where
  "lev [] ys = length ys"
| "lev xs [] = length xs"
| "lev (x # xs) (y # ys) =
     (if x = y then lev xs ys
      else min (lev xs ys + 1) (min (lev (x # xs) ys + 1) (lev xs (y # ys) + 1)))"

definition cell :: "'a list \<Rightarrow> 'a list \<Rightarrow> nat \<Rightarrow> nat \<Rightarrow> nat" where
  "cell a b i j = lev (rev (take i b)) (rev (take j a))"

text \<open>The table while the outer loop runs: the rows below \<open>k\<close> are complete.\<close>

definition rows_done :: "'a list \<Rightarrow> 'a list \<Rightarrow> nat \<Rightarrow> nat list list \<Rightarrow> bool" where
  "rows_done a b k m \<longleftrightarrow>
     length m = Suc (length b) \<and>
     (\<forall>r<k. m ! r = map (cell a b r) [0..<Suc (length a)]) \<and>
     (\<forall>r. k \<le> r \<and> r \<le> length b \<longrightarrow> m ! r = [r])"

text \<open>
  The words of a text as the specification counts them: its maximal runs of code units
  that are not white space.
\<close>

function wordsOf :: "jsstring \<Rightarrow> jsstring list" where
  "wordsOf s =
     (let t = dropWhile isSpace s
      in if t = [] then []
         else takeWhile (\<lambda>c. \<not> isSpace c) t # wordsOf (dropWhile (\<lambda>c. \<not> isSpace c) t))"
  by pat_completeness auto
termination
proof (relation "measure length")
  show "wf (measure length)" by simp
next
  fix s t :: jsstring
  assume t: "t = dropWhile isSpace s" and ne: "t \<noteq> []"
  then have "\<not> isSpace (hd t)" using hd_dropWhile[of isSpace s] by simp
  with ne have "dropWhile (\<lambda>c. \<not> isSpace c) t = dropWhile (\<lambda>c. \<not> isSpace c) (tl t)"
    by (cases t) simp_all
  then have "length (dropWhile (\<lambda>c. \<not> isSpace c) t) \<le> length (tl t)"
    by (metis length_dropWhile_le)
  also have "\<dots> < length t" using ne by simp
  also have "\<dots> \<le> length s" using t by (simp add: length_dropWhile_le)
  finally show "(dropWhile (\<lambda>c. \<not> isSpace c) t, s) \<in> measure length" by simp
qed

text \<open>
  \<open>toLowerCase\<close> on strings of ASCII code units, for concrete evaluations. \<open>plainChar\<close>
  are the code units of a normalised string, \<open>singleSpaced\<close> says that every white
  space of a string is one space with no white space behind it.
\<close>

definition toLowerASCII :: "jsstring \<Rightarrow> jsstring" where
  "toLowerASCII s = map (\<lambda>c. if 0x41 \<le> c \<and> c \<le> 0x5A then c + 0x20 else c) s"

definition plainChar :: "code_unit \<Rightarrow> bool" where
  "plainChar c \<longleftrightarrow> (0x61 \<le> c \<and> c \<le> 0x7A) \<or> (0x30 \<le> c \<and> c \<le> 0x39) \<or> c = 0x20"

fun singleSpaced :: "jsstring \<Rightarrow> bool" where
  "singleSpaced [] = True"
| "singleSpaced (c # cs) =
     ((isSpace c \<longrightarrow> c = 0x20 \<and> (cs = [] \<or> \<not> isSpace (hd cs))) \<and> singleSpaced cs)"

text \<open>
  Scenes for the concrete instances: the quote of the specification's example, a quote of
  exactly five words with a bracketed annotation, and a scene of a late season.
\<close>

definition crepes :: frinkiacResponse where
  "crepes =
     \<lparr>Episode = \<lparr>Season = 1, EpisodeNumber = 11, Title = ascii ''The Crepes of Wrath''\<rparr>,
      Subtitles = Some [\<lparr>Content = ascii ''I didn't know you could''\<rparr>,
                        \<lparr>Content = ascii ''smoke four at once''\<rparr>]\<rparr>"

definition moans :: frinkiacResponse where
  "moans =
     \<lparr>Episode = \<lparr>Season = 3, EpisodeNumber = 2, Title = ascii ''Mr. Lisa''\<rparr>,
      Subtitles = Some [\<lparr>Content = ascii ''Oh [MOANS] no''\<rparr>,
                        \<lparr>Content = ascii ''not again''\<rparr>]\<rparr>"

definition lateSeason :: frinkiacResponse where
  "lateSeason =
     \<lparr>Episode = \<lparr>Season = 12, EpisodeNumber = 4, Title = ascii ''Lisa the Tree Hugger''\<rparr>,
      Subtitles = Some [\<lparr>Content = ascii ''one two three four five six''\<rparr>]\<rparr>"

text \<open>
  Two submissions for the concrete instances: a wrong title with the right season, and
  the right title with a season field that parses to 0.
\<close>

definition guessMoe :: inputs where
  "guessMoe = \<lparr>seasonMin = NaN, seasonMax = NaN, guessInput = ascii ''moe'',
      guessSeason = Num 1, guessEpisode = NaN\<rparr>"

definition guessCrepes :: inputs where
  "guessCrepes = \<lparr>seasonMin = NaN, seasonMax = NaN, guessInput = ascii '' the crepes of wrath'',
      guessSeason = Num 0, guessEpisode = NaN\<rparr>"

text \<open>The lines of \<open>bonusText\<close> that report on the season guess.\<close>

fun aboutSeason :: "bonusLine \<Rightarrow> bool" where
  "aboutSeason (SeasonCorrect b) = True"
| "aboutSeason (SeasonMismatch g a) = True"
| "aboutSeason (EpisodeCorrect b) = False"
| "aboutSeason (EpisodeMismatch g a) = False"

text \<open>The recursive equations of these functions are unfolded by hand.\<close>

declare getValidScene_loop.simps [simp del]
declare splitSpaces.simps [simp del]
declare wordsOf.simps [simp del]

section \<open>The table of \<open>levenshteinDistance\<close> computes the edit distance\<close>

lemma lev_Nil2: "lev xs [] = length xs"
  by (cases xs) simp_all

lemma lev_sym: "lev xs ys = lev ys xs"
  by (induction xs ys rule: lev.induct) (auto simp: lev_Nil2 min.commute min.left_commute)

lemma lev_le_max: "lev xs ys \<le> max (length xs) (length ys)"
  by (induction xs ys rule: lev.induct) (auto simp: min_le_iff_disj)

lemma edits_Nil1: "edits [] ys (length ys)"
  by (induction ys) (auto intro: edits.intros)

lemma edits_Nil2: "edits xs [] (length xs)"
  by (induction xs) (auto intro: edits.intros)

lemma edits_lev: "edits xs ys (lev xs ys)"
proof (induction xs ys rule: lev.induct)
  case (1 ys) show ?case by (simp add: edits_Nil1)
next
  case (2 x xs) show ?case using edits_Nil2[of "x # xs"] by simp
next
  case (3 x xs y ys)
  show ?case
  proof (cases "x = y")
    case True with 3 show ?thesis by (auto intro: edits.keep)
  next
    case False
    have a: "edits (x # xs) (y # ys) (lev xs ys + 1)" using 3 False by (auto intro: edits.substitute)
    have b: "edits (x # xs) (y # ys) (lev (x # xs) ys + 1)" using 3 False by (auto intro: edits.insert)
    have c: "edits (x # xs) (y # ys) (lev xs (y # ys) + 1)" using 3 False by (auto intro: edits.delete)
    show ?thesis using False a b c by (simp add: min_def)
  qed
qed

lemma lev_step: "lev (x # xs) ys \<le> lev xs ys + 1 \<and> lev xs ys \<le> lev xs (y # ys) + 1"
proof (induction "length xs + length ys" arbitrary: xs ys x y rule: less_induct)
  case less
  have C: "lev (x # xs) ys \<le> lev xs ys + 1"
  proof (cases ys)
    case Nil then show ?thesis by (simp add: lev_Nil2)
  next
    case (Cons y' ys')
    show ?thesis
    proof (cases "x = y'")
      case True
      have "lev xs ys' \<le> lev xs (y' # ys') + 1"
        using less[of xs ys' x y'] Cons by simp
      with True Cons show ?thesis by simp
    next
      case False
      with Cons show ?thesis by simp
    qed
  qed
  have B: "lev xs ys \<le> lev xs (y # ys) + 1"
  proof (cases xs)
    case Nil then show ?thesis by simp
  next
    case (Cons x' xs')
    have c1: "lev (x' # xs') ys \<le> lev xs' ys + 1"
      using less[of xs' ys x' y] Cons by simp
    have b1: "lev xs' ys \<le> lev xs' (y # ys) + 1"
      using less[of xs' ys x' y] Cons by simp
    show ?thesis
    proof (cases "x' = y")
      case True
      with Cons c1 show ?thesis by simp
    next
      case False
      with Cons c1 b1 show ?thesis by (simp add: min_def)
    qed
  qed
  from C B show ?case by simp
qed

lemma lev_least: "edits xs ys n \<Longrightarrow> lev xs ys \<le> n"
proof (induction rule: edits.induct)
  case done_e show ?case by simp
next
  case (keep xs ys n x) then show ?case by simp
next
  case (substitute xs ys n x y)
  then show ?case by (simp add: min_le_iff_disj)
next
  case (delete xs ys n x)
  then show ?case using lev_step[of x xs ys undefined] by simp
next
  case (insert xs ys n y)
  have "lev (y # ys) xs \<le> lev ys xs + 1" using lev_step[of y ys xs undefined] by simp
  then show ?case using insert by (simp add: lev_sym[of xs])
qed

lemma edits_keep_snoc: "edits xs ys n \<Longrightarrow> edits (xs @ [c]) (ys @ [c]) n"
  by (induction rule: edits.induct) (auto intro: edits.intros)

lemma edits_sub_snoc: "edits xs ys n \<Longrightarrow> edits (xs @ [c]) (ys @ [d]) (Suc n)"
  by (induction rule: edits.induct) (auto intro: edits.intros)

lemma edits_del_snoc: "edits xs ys n \<Longrightarrow> edits (xs @ [c]) ys (Suc n)"
  by (induction rule: edits.induct) (auto intro: edits.intros)

lemma edits_ins_snoc: "edits xs ys n \<Longrightarrow> edits xs (ys @ [d]) (Suc n)"
  by (induction rule: edits.induct) (auto intro: edits.intros)

lemma edits_rev: "edits xs ys n \<Longrightarrow> edits (rev xs) (rev ys) n"
  by (induction rule: edits.induct)
    (auto intro: edits.done_e edits_keep_snoc edits_sub_snoc edits_del_snoc edits_ins_snoc)

lemma cell_0_j: "j \<le> length a \<Longrightarrow> cell a b 0 j = j"
  by (simp add: cell_def)

lemma cell_i_0: "i \<le> length b \<Longrightarrow> cell a b i 0 = i"
  by (simp add: cell_def lev_Nil2)

lemma rev_take_Suc: "i < length b \<Longrightarrow> rev (take (Suc i) b) = b ! i # rev (take i b)"
  by (simp add: take_Suc_conv_app_nth)

lemma cell_Suc_Suc:
  assumes "i < length b" "j < length a"
  shows "cell a b (Suc i) (Suc j) =
     (if b ! i = a ! j then cell a b i j
      else min (cell a b i j + 1) (min (cell a b (Suc i) j + 1) (cell a b i (Suc j) + 1)))"
  using assms by (simp add: cell_def rev_take_Suc)

lemma matrix0: "foldl (\<lambda>m i. put m i [i]) [] [0..<n] = map (\<lambda>i. [i]) [0..<n]"
  by (induction n) (simp_all add: put_def)

lemma matrix1:
  assumes "m ! 0 = [0]" "m \<noteq> []"
  shows "foldl (\<lambda>m j. put2 m 0 j j) m [0..<Suc n] = m[0 := [0..<Suc n]]"
proof (induction n)
  case 0
  show ?case using assms by (simp add: put2_def put_def)
next
  case (Suc n)
  have "foldl (\<lambda>m j. put2 m 0 j j) m [0..<Suc (Suc n)]
      = put2 (foldl (\<lambda>m j. put2 m 0 j j) m [0..<Suc n]) 0 (Suc n) (Suc n)"
    by simp
  also have "\<dots> = put2 (m[0 := [0..<Suc n]]) 0 (Suc n) (Suc n)"
    by (simp only: Suc)
  also have "\<dots> = m[0 := [0..<Suc (Suc n)]]"
    using assms by (simp add: put2_def put_def)
  finally show ?case .
qed

lemma cellValue_cell:
  assumes "1 \<le> i" "i \<le> length b" "1 \<le> k" "k \<le> length a"
    and "m ! (i - 1) = map (cell a b (i - 1)) [0..<Suc (length a)]"
    and "m ! i = map (cell a b i) [0..<k]"
  shows "cellValue a b m i k = cell a b i k"
proof -
  obtain i' where i: "i = Suc i'" using assms(1) by (cases i) auto
  obtain k' where k: "k = Suc k'" using assms(3) by (cases k) auto
  have r1: "m ! i' ! k' = cell a b i' k'" "m ! i' ! k = cell a b i' k"
    using assms i k by (simp_all add: nth_map_upt del: upt_Suc)
  have r2: "m ! i ! k' = cell a b i k'"
    using assms i k by (simp add: nth_map_upt del: upt_Suc)
  show ?thesis
    using assms r1 r2 i k
    by (simp add: cellValue_def charAt_def cell_Suc_Suc del: upt_Suc)
qed

lemma inner_loop:
  assumes "1 \<le> i" "i \<le> length b" "i < length m"
    and "m ! (i - 1) = map (cell a b (i - 1)) [0..<Suc (length a)]"
    and "m ! i = map (cell a b i) [0..<k]" "1 \<le> k" "k \<le> Suc (length a)"
  shows "foldl (\<lambda>m j. put2 m i j (cellValue a b m i j)) m [k..<Suc (length a)]
       = m[i := map (cell a b i) [0..<Suc (length a)]]"
  using assms
proof (induction "Suc (length a) - k" arbitrary: k m)
  case 0
  then have "k = Suc (length a)" by simp
  with 0 show ?case by (simp del: upt_Suc) (metis list_update_id)
next
  case (Suc d)
  then have klt: "k < Suc (length a)" by simp
  let ?m' = "put2 m i k (cellValue a b m i k)"
  have v: "cellValue a b m i k = cell a b i k"
    using Suc.prems klt by (intro cellValue_cell) simp_all
  have m': "?m' = m[i := map (cell a b i) [0..<Suc k]]"
    using Suc.prems by (simp add: put2_def put_def v)
  have "foldl (\<lambda>m j. put2 m i j (cellValue a b m i j)) ?m' [Suc k..<Suc (length a)]
       = ?m'[i := map (cell a b i) [0..<Suc (length a)]]"
  proof (rule Suc.hyps(1))
    show "d = Suc (length a) - Suc k" using Suc.hyps(2) by simp
    show "1 \<le> i" "i \<le> length b" by fact+
    show "i < length ?m'" using Suc.prems by (simp add: put2_def)
    show "?m' ! (i - 1) = map (cell a b (i - 1)) [0..<Suc (length a)]"
      using Suc.prems by (simp add: put2_def)
    show "?m' ! i = map (cell a b i) [0..<Suc k]"
      using Suc.prems by (simp add: m')
    show "1 \<le> Suc k" by simp
    show "Suc k \<le> Suc (length a)" using klt by simp
  qed
  then show ?case
    using klt by (simp add: upt_conv_Cons m' del: upt_Suc)
qed

lemma outer_loop:
  assumes "rows_done a b k m" "1 \<le> k" "k \<le> Suc (length b)"
  shows "rows_done a b (Suc (length b))
     (foldl (\<lambda>m i. foldl (\<lambda>m j. put2 m i j (cellValue a b m i j)) m [1..<Suc (length a)])
        m [k..<Suc (length b)])"
  using assms
proof (induction "Suc (length b) - k" arbitrary: k m)
  case 0
  then show ?case by (simp del: upt_Suc)
next
  case (Suc d)
  then have klt: "k < Suc (length b)" by simp
  let ?m' = "foldl (\<lambda>m j. put2 m k j (cellValue a b m k j)) m [1..<Suc (length a)]"
  have row: "m ! k = map (cell a b k) [0..<1]"
    using Suc.prems klt by (simp add: rows_done_def cell_i_0)
  have m': "?m' = m[k := map (cell a b k) [0..<Suc (length a)]]"
    using Suc.prems klt row by (intro inner_loop) (simp_all add: rows_done_def)
  have "rows_done a b (Suc k) ?m'"
    unfolding m' using Suc.prems klt
    by (auto simp: rows_done_def nth_list_update less_Suc_eq simp del: upt_Suc)
  then have "rows_done a b (Suc (length b))
     (foldl (\<lambda>m i. foldl (\<lambda>m j. put2 m i j (cellValue a b m i j)) m [1..<Suc (length a)])
        ?m' [Suc k..<Suc (length b)])"
    using Suc.hyps(2) klt by (intro Suc.hyps(1)) simp_all
  then show ?case
    using klt by (simp add: upt_conv_Cons del: upt_Suc)
qed

lemma levenshteinDistance_lev: "levenshteinDistance a b = lev (rev b) (rev a)"
proof -
  let ?m0 = "map (\<lambda>i. [i]) [0..<Suc (length b)]"
  let ?m1 = "?m0[0 := [0..<Suc (length a)]]"
  have m1: "foldl (\<lambda>m j. put2 m 0 j j) ?m0 [0..<Suc (length a)] = ?m1"
    by (rule matrix1) (simp_all add: nth_map_upt upt_conv_Cons del: upt_Suc)
  have row0: "[0..<Suc (length a)] = map (cell a b 0) [0..<Suc (length a)]"
    by (rule nth_equalityI) (simp_all add: cell_0_j nth_map_upt less_Suc_eq_le del: upt_Suc)
  have "rows_done a b 1 ?m1"
    unfolding rows_done_def using row0
    by (auto simp: nth_list_update nth_map_upt less_Suc_eq_le simp del: upt_Suc)
  then have "rows_done a b (Suc (length b))
     (foldl (\<lambda>m i. foldl (\<lambda>m j. put2 m i j (cellValue a b m i j)) m [1..<Suc (length a)])
        ?m1 [1..<Suc (length b)])"
    by (intro outer_loop) simp_all
  then show ?thesis
    by (simp add: levenshteinDistance_def Let_def matrix0 m1 rows_done_def cell_def
        nth_map_upt del: upt_Suc)
qed

section \<open>Normalised strings\<close>

lemma collapseSpaces_hd:
  "s \<noteq> [] \<Longrightarrow> \<not> isSpace (hd s) \<Longrightarrow> collapseSpaces s \<noteq> [] \<and> hd (collapseSpaces s) = hd s"
  by (cases s) simp_all

lemma dropWhile_hd: "dropWhile P xs = [] \<or> \<not> P (hd (dropWhile P xs))"
  by (metis hd_dropWhile)

lemma collapseSpaces_Nil: "collapseSpaces s = [] \<longleftrightarrow> s = []"
  by (cases s) simp_all

lemma singleSpaced_collapseSpaces: "singleSpaced (collapseSpaces s)"
proof (induction s rule: collapseSpaces.induct)
  case 1 show ?case by simp
next
  case (2 c cs)
  show ?case
  proof (cases "isSpace c")
    case True
    have "collapseSpaces (dropWhile isSpace cs) = [] \<or>
          \<not> isSpace (hd (collapseSpaces (dropWhile isSpace cs)))"
    proof (cases "dropWhile isSpace cs = []")
      case True
      then show ?thesis by (simp only: collapseSpaces.simps) simp
    next
      case False
      then have "\<not> isSpace (hd (dropWhile isSpace cs))"
        using dropWhile_hd[of isSpace cs] by blast
      with False show ?thesis
        using collapseSpaces_hd[of "dropWhile isSpace cs"] by metis
    qed
    with True 2 show ?thesis by simp
  next
    case False
    with 2 show ?thesis by simp
  qed
qed

lemma collapseSpaces_id: "singleSpaced s \<Longrightarrow> collapseSpaces s = s"
proof (induction s)
  case Nil show ?case by simp
next
  case (Cons c cs)
  show ?case
  proof (cases "isSpace c")
    case True
    with Cons.prems have "c = 0x20" "dropWhile isSpace cs = cs"
      by (auto simp: dropWhile_eq_self_iff)
    with True Cons show ?thesis by simp
  next
    case False
    with Cons show ?thesis by simp
  qed
qed

lemma singleSpaced_append: "singleSpaced (xs @ ys) \<Longrightarrow> singleSpaced xs \<and> singleSpaced ys"
  by (induction xs) (auto simp: hd_append)

lemma trim_inside: "\<exists>p q. s = p @ trim s @ q"
proof -
  let ?y = "dropWhile isSpace s"
  have "s = takeWhile isSpace s @ ?y" by simp
  moreover have "?y = trim s @ rev (takeWhile isSpace (rev ?y))"
    unfolding trim_def by (metis rev_append rev_rev_ident takeWhile_dropWhile_id)
  ultimately show ?thesis by metis
qed

lemma singleSpaced_trim: "singleSpaced s \<Longrightarrow> singleSpaced (trim s)"
  using trim_inside[of s] by (metis singleSpaced_append)

lemma set_trim: "set (trim s) \<subseteq> set s"
  using trim_inside[of s] by (metis Un_upper1 Un_upper2 set_append subset_trans)

lemma set_collapseSpaces: "set (collapseSpaces s) \<subseteq> insert 0x20 (set s)"
proof (induction s rule: collapseSpaces.induct)
  case 1 show ?case by simp
next
  case (2 c cs)
  have "set (dropWhile isSpace cs) \<subseteq> set cs" by (auto dest: set_dropWhileD)
  with 2 show ?case by (cases "isSpace c") auto
qed

lemma singleSpaced_space: "singleSpaced s \<Longrightarrow> c \<in> set s \<Longrightarrow> isSpace c \<Longrightarrow> c = 0x20"
  by (induction s) auto

lemma trim_trim: "trim (trim s) = trim s"
proof -
  let ?y = "dropWhile isSpace s"
  let ?z = "rev (dropWhile isSpace (rev ?y))"
  have "dropWhile isSpace ?z = ?z"
  proof (cases "?z = []")
    case True then show ?thesis by (simp only: dropWhile.simps)
  next
    case False
    have y: "?y \<noteq> []"
    proof
      assume "?y = []"
      then have "?z = []" by (simp only: rev.simps dropWhile.simps)
      with False show False by contradiction
    qed
    then have "\<not> isSpace (hd ?y)" by (metis hd_dropWhile)
    moreover have "?y = ?z @ rev (takeWhile isSpace (rev ?y))"
      by (metis rev_append rev_rev_ident takeWhile_dropWhile_id)
    ultimately have "\<not> isSpace (hd ?z)" using False by (metis hd_append2)
    with False show ?thesis by (cases ?z) simp_all
  qed
  then show ?thesis by (simp add: trim_def)
qed

lemma replaceClass_same: "replaceClass (\<lambda>c. c \<in> set [q, q]) [q] s = s"
  by (induction s) (simp_all add: replaceClass_def)

lemma replaceClass_strip: "replaceClass (\<lambda>c. \<not> keptChar c) [] s = filter keptChar s"
  by (induction s) (simp_all add: replaceClass_def)

lemma isSpace_20: "isSpace 0x20"
  by (simp add: isSpace_def)

lemma normalizeString_eq:
  "normalizeString lc s = trim (collapseSpaces (filter keptChar (lc s)))"
  by (simp only: normalizeString_def replaceClass_same replaceClass_strip)

lemma normalizeString_plain:
  "singleSpaced (normalizeString lc s) \<and> list_all plainChar (normalizeString lc s)"
proof -
  let ?r = "normalizeString lc s"
  have ss: "singleSpaced ?r"
    by (simp add: normalizeString_eq singleSpaced_trim singleSpaced_collapseSpaces)
  have "set ?r \<subseteq> insert 0x20 (set (filter keptChar (lc s)))"
    unfolding normalizeString_eq using set_trim set_collapseSpaces by blast
  then have kept: "\<forall>c\<in>set ?r. keptChar c"
    by (auto simp: keptChar_def isSpace_20)
  have "\<forall>c\<in>set ?r. plainChar c"
  proof
    fix c assume c: "c \<in> set ?r"
    with kept have "keptChar c" by simp
    moreover have "isSpace c \<Longrightarrow> c = 0x20" using ss c by (rule singleSpaced_space)
    ultimately show "plainChar c" by (auto simp: keptChar_def plainChar_def)
  qed
  with ss show ?thesis by (simp add: list_all_iff)
qed

lemma plain_kept: "plainChar c \<Longrightarrow> keptChar c"
  by (auto simp: plainChar_def keptChar_def isSpace_20)

lemma toLowerASCII_plain: "list_all plainChar t \<Longrightarrow> toLowerASCII t = t"
proof (induction t)
  case Nil show ?case by (simp add: toLowerASCII_def)
next
  case (Cons c t)
  then have "plainChar c" by simp
  then have "\<not> (0x41 \<le> c \<and> c \<le> 0x5A)"
    unfolding plainChar_def by (auto simp: word_le_nat_alt)
  with Cons show ?case by (simp add: toLowerASCII_def)
qed

section \<open>Properties of \<open>similarity\<close>\<close>

lemma levenshteinDistance_sym: "levenshteinDistance a b = levenshteinDistance b a"
  by (simp add: levenshteinDistance_lev lev_sym[of "rev b"])

lemma levenshteinDistance_edits: "edits a b (levenshteinDistance a b)"
proof -
  have "edits (rev a) (rev b) (lev (rev a) (rev b))" by (rule edits_lev)
  then have "edits (rev (rev a)) (rev (rev b)) (lev (rev a) (rev b))" by (rule edits_rev)
  then show ?thesis by (simp add: levenshteinDistance_lev lev_sym[of "rev b"])
qed

lemma levenshteinDistance_least: "edits a b n \<Longrightarrow> levenshteinDistance a b \<le> n"
proof -
  assume "edits a b n"
  then have "edits (rev a) (rev b) n" by (rule edits_rev)
  then have "lev (rev a) (rev b) \<le> n" by (rule lev_least)
  then show ?thesis by (simp add: levenshteinDistance_lev lev_sym[of "rev b"])
qed

lemma levenshteinDistance_le_max: "levenshteinDistance a b \<le> max (length a) (length b)"
  using lev_le_max[of "rev b" "rev a"] by (simp add: levenshteinDistance_lev max.commute)

lemma similarity_eq:
  "similarity lc a b =
     (if normalizeString lc a = normalizeString lc b then 1
      else 1 - real (levenshteinDistance (normalizeString lc a) (normalizeString lc b)) /
               real (max (length (normalizeString lc a)) (length (normalizeString lc b))))"
proof -
  have "normalizeString lc a = normalizeString lc b"
    if "max (length (normalizeString lc a)) (length (normalizeString lc b)) = 0"
    using that by simp
  then show ?thesis
    unfolding similarity_def Let_def by (simp only: if_False split: if_splits) metis
qed

lemma bart_bort: "edits (ascii ''bart'') (ascii ''bort'') 1"
  unfolding ascii_def
  by (simp add: edits.intros)

text \<open>
  Claim C1. \<open>similarity\<close> normalises both strings. When the normal forms are equal
  (also when both are empty) the result is exactly 1; otherwise it is
  \<open>1 - d / max (length normA) (length normB)\<close>, where \<open>d\<close>, the value that
  \<open>levenshteinDistance\<close> reads from its table, is the Levenshtein distance of the normal
  forms: some sequence of \<open>d\<close> unit-cost substitutions, insertions and deletions turns
  one into the other, and no sequence does it with fewer. The result lies between 0
  and 1.
\<close>

theorem similarity_levenshtein:
  "(let normA = normalizeString lc a; normB = normalizeString lc b in
      similarity lc a b =
        (if normA = normB then 1
         else 1 - real (levenshteinDistance normA normB) / real (max (length normA) (length normB)))
      \<and> edits normA normB (levenshteinDistance normA normB)
      \<and> (\<forall>n. edits normA normB n \<longrightarrow> levenshteinDistance normA normB \<le> n))
   \<and> 0 \<le> similarity lc a b \<and> similarity lc a b \<le> 1"
proof -
  let ?A = "normalizeString lc a" and ?B = "normalizeString lc b"
  let ?d = "levenshteinDistance ?A ?B" and ?m = "max (length ?A) (length ?B)"
  have d: "real ?d \<le> real ?m" using levenshteinDistance_le_max[of ?A ?B] by simp
  have q0: "0 \<le> real ?d / real ?m" by simp
  have q1: "real ?d / real ?m \<le> 1"
  proof (cases "?m = 0")
    case True
    then have "real ?m = 0" by (simp only: of_nat_0)
    then show ?thesis by (simp only: division_ring_divide_zero zero_le_one)
  next
    case False
    then have "0 < ?m" by (rule contrapos_np) (simp only: not_gr_zero)
    then have "0 < real ?m" by (simp only: of_nat_0_less_iff)
    then show ?thesis using d by (simp only: pos_divide_le_eq mult_1)
  qed
  note q = q0 q1
  have r: "0 \<le> similarity lc a b \<and> similarity lc a b \<le> 1"
    using q by (simp add: similarity_eq)
  show ?thesis
    unfolding Let_def using r similarity_eq[of lc a b] levenshteinDistance_edits[of ?A ?B]
      levenshteinDistance_least[of ?A ?B]
    by blast
qed

text \<open>
  The theorem at \<open>"Bart!"\<close> and \<open>" bort"\<close>: the normal forms \<open>"bart"\<close> and \<open>"bort"\<close> are one
  substitution apart, so the distance is at most 1 and the similarity is 3/4.
\<close>

theorem similarity_levenshtein_witness:
  "edits (ascii ''bart'') (ascii ''bort'') 1
   \<and> levenshteinDistance (ascii ''bart'') (ascii ''bort'') \<le> 1
   \<and> similarity toLowerASCII (ascii ''Bart!'') (ascii '' bort'') = 3 / 4"
proof -
  have nA: "normalizeString toLowerASCII (ascii ''Bart!'') = ascii ''bart''"
    by (simp add: normalizeString_def ascii_def toLowerASCII_def replaceClass_def keptChar_def
        isSpace_def trim_def)
  have nB: "normalizeString toLowerASCII (ascii '' bort'') = ascii ''bort''"
    by (simp add: normalizeString_def ascii_def toLowerASCII_def replaceClass_def keptChar_def
        isSpace_def trim_def)
  have ne: "ascii ''bart'' \<noteq> ascii ''bort''" by (simp add: ascii_def)
  have e: "edits (ascii ''bart'') (ascii ''bort'') 1" by (rule bart_bort)
  have d: "levenshteinDistance (ascii ''bart'') (ascii ''bort'') = 1" by code_simp
  have l: "length (ascii ''bart'') = 4" "length (ascii ''bort'') = 4" by (simp_all add: ascii_def)
  show ?thesis
    using similarity_levenshtein[of toLowerASCII "ascii ''Bart!''" "ascii '' bort''"] e
    unfolding Let_def nA nB by (simp add: ne d l)
qed

text \<open>
  Claim C7. \<open>similarity\<close> is symmetric: the table has the second string along its rows
  and the first along its columns, and yet both argument orders give the same number.
\<close>

theorem similarity_symmetric: "similarity lc a b = similarity lc b a"
  by (simp add: similarity_eq levenshteinDistance_sym[of "normalizeString lc a"] max.commute eq_commute)

section \<open>Properties of \<open>normalizeString\<close>\<close>

text \<open>
  Claim C8. \<open>normalizeString\<close> is idempotent, for every lower-casing of the runtime that
  leaves a string of lower-case letters, digits and spaces as it is (as
  \<open>toLowerCase\<close> does).
\<close>

theorem normalize_idempotent:
  assumes "\<forall>t. list_all plainChar t \<longrightarrow> lc t = t"
  shows "normalizeString lc (normalizeString lc s) = normalizeString lc s"
proof -
  let ?r = "normalizeString lc s"
  have p: "singleSpaced ?r" "list_all plainChar ?r"
    using normalizeString_plain[of lc s] by simp_all
  have "lc ?r = ?r" using assms p(2) by simp
  moreover have "filter keptChar ?r = ?r"
    using p(2) by (simp add: list_all_iff plain_kept)
  moreover have "collapseSpaces ?r = ?r" using p(1) by (rule collapseSpaces_id)
  moreover have "trim ?r = ?r" by (simp add: normalizeString_eq trim_trim)
  ultimately show ?thesis
    by (simp add: normalizeString_eq[of lc ?r])
qed

text \<open>
  The theorem with the ASCII lower-casing at \<open>"  The  Crepes of Wrath!"\<close>, whose normal
  form is \<open>"the crepes of wrath"\<close>.
\<close>

theorem normalize_idempotent_witness:
  "normalizeString toLowerASCII (ascii ''  The  Crepes of Wrath!'') = ascii ''the crepes of wrath''
   \<and> normalizeString toLowerASCII (ascii ''the crepes of wrath'') = ascii ''the crepes of wrath''"
proof -
  have h: "\<forall>t. list_all plainChar t \<longrightarrow> toLowerASCII t = t"
    by (simp add: toLowerASCII_plain)
  have e: "normalizeString toLowerASCII (ascii ''  The  Crepes of Wrath!'')
         = ascii ''the crepes of wrath''"
    by (simp add: normalizeString_def ascii_def toLowerASCII_def replaceClass_def keptChar_def
        isSpace_def trim_def)
  show ?thesis
    using normalize_idempotent[OF h, of "ascii ''  The  Crepes of Wrath!''"]
    unfolding e by (simp only: e simp_thms)
qed

section \<open>Evaluating the example scenes\<close>

lemmas string_eval = ascii_def trim_def isSpace_def startsWith_def getQuoteText_def
  splitSpaces.simps minQuoteWords_def

lemma crepes_quote: "getQuoteText crepes = ascii ''I didn't know you could smoke four at once''"
  by (simp add: crepes_def getQuoteText_def ascii_def)

lemma crepes_valid: "isValidQuote \<lparr>range_min = 1, range_max = 9\<rparr> crepes"
  by (simp add: isValidQuote_def crepes_def string_eval)

lemma moans_words: "length (wordsOf (getQuoteText moans)) = minQuoteWords"
  by (simp add: moans_def string_eval wordsOf.simps)

lemma moans_start: "\<not> startsWith (trim (getQuoteText moans)) [0x5B]"
  by (simp add: moans_def string_eval)

lemma moans_brackets:
  "bracketMatches (getQuoteText moans) = [ascii ''[MOANS]''] \<and> length (getQuoteText moans) = 23"
  by (simp add: moans_def string_eval)

lemma lateSeason_rejected: "\<not> isValidQuote \<lparr>range_min = 1, range_max = 9\<rparr> lateSeason"
  by (simp add: isValidQuote_def lateSeason_def)

section \<open>The split of the trimmed quote gives its words\<close>

lemma wordsOf_dropWhile: "wordsOf (dropWhile isSpace s) = wordsOf s"
  by (subst wordsOf.simps, subst (2) wordsOf.simps) (simp add: Let_def)

lemma wordsOf_spaces: "\<forall>c\<in>set ws. isSpace c \<Longrightarrow> wordsOf ws = []"
  by (subst wordsOf.simps) (simp add: Let_def)

lemma takeWhile_nsp_append:
  assumes "\<forall>c\<in>set ws. isSpace c"
  shows "takeWhile (\<lambda>c. \<not> isSpace c) (t @ ws) = takeWhile (\<lambda>c. \<not> isSpace c) t"
  using assms by (induction t) (auto simp: takeWhile_eq_Nil_iff intro: hd_in_set)

lemma dropWhile_nsp_append:
  assumes "\<forall>c\<in>set ws. isSpace c"
  shows "dropWhile (\<lambda>c. \<not> isSpace c) (t @ ws) = dropWhile (\<lambda>c. \<not> isSpace c) t @ ws"
  using assms by (induction t) (auto simp: dropWhile_eq_self_iff intro: hd_in_set)

lemma wordsOf_append_spaces:
  assumes "\<forall>c\<in>set ws. isSpace c"
  shows "wordsOf (s @ ws) = wordsOf s"
  using assms
proof (induction s rule: wordsOf.induct)
  case (1 s)
  let ?t = "dropWhile isSpace s"
  show ?case
  proof (cases "?t = []")
    case True
    then have "\<forall>c\<in>set (s @ ws). isSpace c" using 1(2) by (auto simp: dropWhile_eq_Nil_conv)
    then have "wordsOf (s @ ws) = []" by (rule wordsOf_spaces)
    moreover have "wordsOf s = []" using True by (subst wordsOf.simps) simp
    ultimately show ?thesis by simp
  next
    case False
    then obtain x where x: "x \<in> set s" "\<not> isSpace x" by (auto simp: dropWhile_eq_Nil_conv)
    then have d: "dropWhile isSpace (s @ ws) = ?t @ ws" by (simp add: dropWhile_append1)
    have ih: "wordsOf (dropWhile (\<lambda>c. \<not> isSpace c) ?t @ ws)
            = wordsOf (dropWhile (\<lambda>c. \<not> isSpace c) ?t)"
      using 1(1)[OF refl False] 1(2) by simp
    have "wordsOf (s @ ws) = takeWhile (\<lambda>c. \<not> isSpace c) ?t
            # wordsOf (dropWhile (\<lambda>c. \<not> isSpace c) ?t @ ws)"
      using False 1(2)
      by (subst wordsOf.simps) (simp add: d Let_def takeWhile_nsp_append dropWhile_nsp_append)
    also have "\<dots> = wordsOf s"
      using False by (subst (2) wordsOf.simps) (simp add: Let_def ih)
    finally show ?thesis .
  qed
qed

lemma trim_split:
  "dropWhile isSpace s = trim s @ rev (takeWhile isSpace (rev (dropWhile isSpace s)))"
  unfolding trim_def by (metis rev_append rev_rev_ident takeWhile_dropWhile_id)

lemma wordsOf_trim: "wordsOf (trim s) = wordsOf s"
proof -
  let ?ws = "rev (takeWhile isSpace (rev (dropWhile isSpace s)))"
  have "\<forall>c\<in>set ?ws. isSpace c" by (auto dest: set_takeWhileD)
  then have "wordsOf (trim s @ ?ws) = wordsOf (trim s)" by (rule wordsOf_append_spaces)
  then have "wordsOf (dropWhile isSpace s) = wordsOf (trim s)"
    using trim_split[of s] by simp
  then show ?thesis by (simp add: wordsOf_dropWhile)
qed

lemma splitSpaces_wordsOf:
  assumes "t \<noteq> []" "\<not> isSpace (hd t)" "\<not> isSpace (last t)"
  shows "splitSpaces t = wordsOf t"
  using assms
proof (induction t rule: splitSpaces.induct)
  case (1 s)
  let ?r = "dropWhile (\<lambda>c. \<not> isSpace c) s"
  have ds: "dropWhile isSpace s = s" using 1(2,3) by (cases s) simp_all
  have w: "wordsOf s = takeWhile (\<lambda>c. \<not> isSpace c) s # wordsOf ?r"
    using 1(2) by (subst wordsOf.simps) (simp add: ds Let_def)
  show ?case
  proof (cases "?r = []")
    case True
    have "wordsOf [] = []" by (simp add: wordsOf_spaces)
    then have e: "wordsOf ?r = []" by (simp only: True)
    have "splitSpaces s =
        (if ?r = [] then [takeWhile (\<lambda>c. \<not> isSpace c) s]
         else takeWhile (\<lambda>c. \<not> isSpace c) s # splitSpaces (dropWhile isSpace ?r))"
      by (subst splitSpaces.simps) (simp only: Let_def)
    then have "splitSpaces s = [takeWhile (\<lambda>c. \<not> isSpace c) s]"
      by (simp only: True simp_thms if_True)
    then show ?thesis by (simp only: w e)
  next
    case False
    let ?u = "dropWhile isSpace ?r"
    have "s = takeWhile (\<lambda>c. \<not> isSpace c) s @ ?r" by simp
    then have lr: "last ?r = last s" using False by (metis last_appendR)
    then have "\<not> isSpace (last ?r)" using 1(4) by simp
    then have "last ?r \<in> set ?r \<and> \<not> isSpace (last ?r)" using False by simp
    then have une: "?u \<noteq> []" by (auto simp: dropWhile_eq_Nil_conv)
    have "?r = takeWhile isSpace ?r @ ?u" by simp
    then have "last ?u = last ?r" using une by (metis last_appendR)
    then have lu: "\<not> isSpace (last ?u)" using lr 1(4) by simp
    have hu: "\<not> isSpace (hd ?u)" using une by (metis hd_dropWhile)
    have ih: "splitSpaces ?u = wordsOf ?u"
      using 1(1)[OF refl refl False une hu lu] .
    have "splitSpaces s =
        (if ?r = [] then [takeWhile (\<lambda>c. \<not> isSpace c) s]
         else takeWhile (\<lambda>c. \<not> isSpace c) s # splitSpaces ?u)"
      by (subst splitSpaces.simps) (simp only: Let_def)
    then have "splitSpaces s = takeWhile (\<lambda>c. \<not> isSpace c) s # wordsOf ?u"
      by (simp only: False simp_thms if_False ih)
    then show ?thesis by (simp only: w wordsOf_dropWhile)
  qed
qed

lemma trim_ends:
  assumes "trim s \<noteq> []"
  shows "\<not> isSpace (hd (trim s)) \<and> \<not> isSpace (last (trim s))"
proof -
  let ?y = "dropWhile isSpace s"
  let ?z = "dropWhile isSpace (rev ?y)"
  have z: "?z \<noteq> []" using assms by (simp add: trim_def)
  then have "\<not> isSpace (hd ?z)" by (metis hd_dropWhile)
  then have l: "\<not> isSpace (last (trim s))" using z by (simp add: trim_def last_rev)
  have y: "?y \<noteq> []"
  proof
    assume "?y = []"
    then have "?z = []" by (simp only: rev.simps dropWhile.simps)
    with z show False by contradiction
  qed
  then have "\<not> isSpace (hd ?y)" by (metis hd_dropWhile)
  moreover have "hd ?y = hd (trim s)" using trim_split[of s] assms by (metis hd_append2)
  ultimately show ?thesis using l by simp
qed

lemma splitSpaces_trim:
  assumes "wordsOf q \<noteq> []"
  shows "splitSpaces (trim q) = wordsOf q"
proof -
  have "trim q \<noteq> []"
  proof
    assume "trim q = []"
    then have "wordsOf (trim q) = []" by (simp add: wordsOf_spaces)
    with assms show False by (simp add: wordsOf_trim)
  qed
  then have "splitSpaces (trim q) = wordsOf (trim q)"
    using trim_ends[of q] by (intro splitSpaces_wordsOf) simp_all
  then show ?thesis by (simp add: wordsOf_trim)
qed

section \<open>Properties of the validator and of the acquisition loop\<close>

text \<open>
  Claim C5. A scene whose season lies outside the season range is rejected whatever its
  other fields are. A scene of a season inside the range (the first half of the claim
  leaves no other reading) whose quote has exactly \<open>minQuoteWords\<close> words, whose trimmed
  quote does not start with an opening bracket, and whose bracketed spans make up at
  most half of the length of the quote, is accepted.
\<close>

theorem isValidQuote_season_and_boundary:
  "(Season (Episode sc) < range_min r \<or> Season (Episode sc) > range_max r
      \<longrightarrow> \<not> isValidQuote r sc)
   \<and> (range_min r \<le> Season (Episode sc) \<and> Season (Episode sc) \<le> range_max r
       \<and> length (wordsOf (getQuoteText sc)) = minQuoteWords
       \<and> \<not> startsWith (trim (getQuoteText sc)) [0x5B]
       \<and> 2 * length (concat (bracketMatches (getQuoteText sc))) \<le> length (getQuoteText sc)
      \<longrightarrow> isValidQuote r sc)"
proof (intro conjI impI)
  assume "Season (Episode sc) < range_min r \<or> Season (Episode sc) > range_max r"
  then show "\<not> isValidQuote r sc" by (auto simp: isValidQuote_def Let_def)
next
  assume h: "range_min r \<le> Season (Episode sc) \<and> Season (Episode sc) \<le> range_max r
       \<and> length (wordsOf (getQuoteText sc)) = minQuoteWords
       \<and> \<not> startsWith (trim (getQuoteText sc)) [0x5B]
       \<and> 2 * length (concat (bracketMatches (getQuoteText sc))) \<le> length (getQuoteText sc)"
  then have "wordsOf (getQuoteText sc) \<noteq> []" by (auto simp: minQuoteWords_def)
  then have "splitSpaces (trim (getQuoteText sc)) = wordsOf (getQuoteText sc)"
    by (rule splitSpaces_trim)
  with h have w: "length (splitSpaces (trim (getQuoteText sc))) = minQuoteWords" by simp
  have "getQuoteText sc \<noteq> []"
  proof
    assume "getQuoteText sc = []"
    then have "length (splitSpaces (trim (getQuoteText sc))) = 1"
      by (simp add: trim_def splitSpaces.simps)
    with w show False by (simp add: minQuoteWords_def)
  qed
  moreover have "\<not> real (length (concat (bracketMatches (getQuoteText sc))))
      > real (length (getQuoteText sc)) * 0.5"
  proof -
    from h have "real (2 * length (concat (bracketMatches (getQuoteText sc))))
       \<le> real (length (getQuoteText sc))"
      by (simp only: of_nat_le_iff)
    then show ?thesis by simp
  qed
  ultimately show "isValidQuote r sc"
    using h w by (simp add: isValidQuote_def Let_def)
qed

text \<open>
  The theorem at the five words \<open>"Oh [MOANS] no not again"\<close> of season 3 (7 of 23 code
  units in brackets): accepted for the seasons 1 to 5, rejected for the seasons 4 to 5.
\<close>

theorem isValidQuote_season_and_boundary_witness:
  "isValidQuote \<lparr>range_min = 1, range_max = 5\<rparr> moans
   \<and> \<not> isValidQuote \<lparr>range_min = 4, range_max = 5\<rparr> moans"
proof -
  have b: "2 * length (concat (bracketMatches (getQuoteText moans))) \<le> length (getQuoteText moans)"
    by (simp add: moans_brackets ascii_def)
  have s: "Season (Episode moans) = 3" by (simp add: moans_def)
  show ?thesis
    using isValidQuote_season_and_boundary[of moans "\<lparr>range_min = 1, range_max = 5\<rparr>"]
      isValidQuote_season_and_boundary[of moans "\<lparr>range_min = 4, range_max = 5\<rparr>"]
      moans_words moans_start b s
    by simp
qed

lemma loop_rejected:
  assumes "\<forall>k<n. \<exists>sc. env (f + k) = Response sc \<and> \<not> isValidQuote r sc"
    and "a + n \<le> maxAttempts"
  shows "getValidScene_loop r env a f = getValidScene_loop r env (a + n) (f + n)"
  using assms
proof (induction n arbitrary: a f)
  case 0
  show ?case by simp
next
  case (Suc n)
  from Suc.prems(1) obtain sc where sc: "env f = Response sc" "\<not> isValidQuote r sc"
    by force
  have lt: "a < maxAttempts" using Suc.prems(2) by simp
  have "getValidScene_loop r env a f = getValidScene_loop r env (Suc a) (Suc f)"
    using sc lt by (subst getValidScene_loop.simps) simp
  also have "\<dots> = getValidScene_loop r env (Suc a + n) (Suc f + n)"
  proof (rule Suc.IH)
    show "\<forall>k<n. \<exists>sc. env (Suc f + k) = Response sc \<and> \<not> isValidQuote r sc"
      using Suc.prems(1) by (metis Suc_less_eq add_Suc_shift)
    show "Suc a + n \<le> maxAttempts" using Suc.prems(2) by simp
  qed
  finally show ?case by simp
qed

text \<open>
  Claim C3. The acquisition loop fetches one candidate at a time and returns the first
  accepted one at once, after as many fetches as candidates seen; when every candidate
  is rejected it makes exactly 50 fetches, no more, and fails with \<open>NoValidSceneFound\<close>.
\<close>

theorem getValidScene_first_accepted_or_fifty:
  "((\<forall>k<n. \<exists>sc. env k = Response sc \<and> \<not> isValidQuote r sc) \<and> n < 50 \<and>
      env n = Response good \<and> isValidQuote r good
      \<longrightarrow> getValidScene r env = (Inr good, Suc n))
   \<and> ((\<forall>k<50. \<exists>sc. env k = Response sc \<and> \<not> isValidQuote r sc)
      \<longrightarrow> getValidScene r env = (Inl NoValidSceneFound, 50))"
proof (intro conjI impI)
  assume h: "(\<forall>k<n. \<exists>sc. env k = Response sc \<and> \<not> isValidQuote r sc) \<and> n < 50 \<and>
      env n = Response good \<and> isValidQuote r good"
  then have "getValidScene_loop r env 0 0 = getValidScene_loop r env (0 + n) (0 + n)"
    by (intro loop_rejected) (simp_all add: maxAttempts_def)
  also have "\<dots> = (Inr good, Suc n)"
    using h by (subst getValidScene_loop.simps) (simp add: maxAttempts_def)
  finally show "getValidScene r env = (Inr good, Suc n)" by (simp add: getValidScene_def)
next
  assume h: "\<forall>k<50. \<exists>sc. env k = Response sc \<and> \<not> isValidQuote r sc"
  then have "getValidScene_loop r env 0 0 = getValidScene_loop r env (0 + 50) (0 + 50)"
    by (intro loop_rejected) (simp_all add: maxAttempts_def)
  also have "\<dots> = (Inl NoValidSceneFound, 50)"
    by (subst getValidScene_loop.simps) (simp add: maxAttempts_def)
  finally show "getValidScene r env = (Inl NoValidSceneFound, 50)" by (simp add: getValidScene_def)
qed

text \<open>
  The theorem at a provider whose third scene is the first valid one (three fetches),
  and at a provider that only has scenes of season 12 (50 fetches, then the failure).
\<close>

theorem getValidScene_first_accepted_or_fifty_witness:
  "getValidScene \<lparr>range_min = 1, range_max = 9\<rparr>
      (\<lambda>k. if k < 2 then Response lateSeason else Response crepes) = (Inr crepes, 3)
   \<and> getValidScene \<lparr>range_min = 1, range_max = 9\<rparr> (\<lambda>k. Response lateSeason)
      = (Inl NoValidSceneFound, 50)"
  using getValidScene_first_accepted_or_fifty[of 2
      "\<lambda>k. if k < 2 then Response lateSeason else Response crepes"
      "\<lparr>range_min = 1, range_max = 9\<rparr>" crepes]
    getValidScene_first_accepted_or_fifty[of 0 "\<lambda>k. Response lateSeason"
      "\<lparr>range_min = 1, range_max = 9\<rparr>" crepes]
    crepes_valid lateSeason_rejected
  by (simp add: numeral_3_eq_3)

section \<open>Properties of the round\<close>

text \<open>
  Claim C4. \<open>revealHint\<close> changes nothing when the hint is already revealed or the round
  is guessed; otherwise it takes the cost of the hint from the points of the round, not
  going below 0, and adds the hint to the revealed ones. From 100 points, revealing the
  season (20) and the image (30) leaves 50, and revealing the season again changes
  nothing.
\<close>

theorem revealHint_cost_once:
  "(hint \<in> revealed s \<or> guessed s \<longrightarrow> revealHint hint s = s)
   \<and> (hint \<notin> revealed s \<and> \<not> guessed s \<longrightarrow>
        revealHint hint s =
          s\<lparr>roundPoints := max 0 (roundPoints s - hintCosts hint),
            revealed := insert hint (revealed s)\<rparr>)
   \<and> (roundPoints s = 100 \<and> revealed s = {} \<and> \<not> guessed s \<longrightarrow>
        hintCosts season = 20 \<and> hintCosts image = 30
        \<and> roundPoints (revealHint image (revealHint season s)) = 50
        \<and> revealHint season (revealHint image (revealHint season s))
            = revealHint image (revealHint season s))"
  by (simp add: revealHint_def Let_def)

text \<open>The theorem at the initial state, which has 100 points and nothing revealed.\<close>

theorem revealHint_cost_once_witness:
  "roundPoints (revealHint image (revealHint season initialState)) = 50
   \<and> revealHint season (revealHint image (revealHint season initialState))
       = revealHint image (revealHint season initialState)
   \<and> revealed (revealHint season initialState) = {season}"
  using revealHint_cost_once[of season initialState]
    revealHint_cost_once[of season "revealHint image (revealHint season initialState)"]
  by (simp add: initialState_def startingPoints_def revealHint_def)

text \<open>
  Claim C6. The claim is that the season range read from the two inputs always has
  \<open>min \<le> max\<close> with both inside 1..20. \<open>getSeasonRange\<close> bounds the minimum only from
  below and the maximum only from above: the inputs 25 and 30 give the range from 25
  to 20.
\<close>

theorem getSeasonRange_above_twenty:
  "getSeasonRange \<lparr>seasonMin = Num 25, seasonMax = Num 30, guessInput = [],
      guessSeason = NaN, guessEpisode = NaN\<rparr> = \<lparr>range_min = 25, range_max = 20\<rparr>"
  by (simp add: getSeasonRange_def)

lemma getSeasonRange_inside:
  "1 \<le> range_min (getSeasonRange els) \<and> range_max (getSeasonRange els) \<le> 20"
  by (simp add: getSeasonRange_def Let_def)

section \<open>Properties of the guess submission\<close>

lemma seasonBonus_cases:
  "seasonBonus g a =
     (if truthy g \<and> g = Num a then (bonusPoints_season, [SeasonCorrect bonusPoints_season])
      else if truthy g then (0, [SeasonMismatch (case g of Num n \<Rightarrow> n) a])
      else (0, []))"
  by (cases g) (simp_all add: seasonBonus_def)

lemma episodeBonus_cases:
  "episodeBonus g a =
     (if truthy g \<and> g = Num a then (bonusPoints_episode, [EpisodeCorrect bonusPoints_episode])
      else if truthy g then (0, [EpisodeMismatch (case g of Num n \<Rightarrow> n) a])
      else (0, []))"
  by (cases g) (simp_all add: episodeBonus_def)

lemma submitGuess_active:
  assumes "\<not> guessed s" "trim (guessInput els) \<noteq> []" "scene s = Some sc"
  shows "submitGuess lc els s =
     (let isCorrect = (similarity lc (trim (guessInput els)) (Title (Episode sc)) \<ge> similarityThreshold);
          sb = seasonBonus (guessSeason els) (Season (Episode sc));
          eb = episodeBonus (guessEpisode els) (EpisodeNumber (Episode sc));
          final = (if isCorrect then roundPoints s else 0) + (fst sb + fst eb);
          s' = s\<lparr>guessed := True, won := isCorrect, roundPoints := final,
                 totalPoints := totalPoints s + final, roundsPlayed := roundsPlayed s + 1\<rparr>
      in Inr (s', Some (showResult s' (checkAnswer lc sc (trim (guessInput els))) (snd sb @ snd eb))))"
  using assms
  by (simp add: submitGuess_def checkAnswer_def Let_def split_beta)

lemma lev_ge_diff: "length ys - length xs \<le> lev xs ys"
  by (induction xs ys rule: lev.induct) auto

lemma levenshteinDistance_ge_diff: "length a - length b \<le> levenshteinDistance a b"
  using lev_ge_diff[where xs = "rev b" and ys = "rev a"] by (simp add: levenshteinDistance_lev)

lemma normalize_title:
  "normalizeString toLowerASCII (ascii ''The Crepes of Wrath'') = ascii ''the crepes of wrath''"
  by (simp add: normalizeString_def ascii_def toLowerASCII_def replaceClass_def keptChar_def
      isSpace_def trim_def)

lemma normalize_moe: "normalizeString toLowerASCII (ascii ''moe'') = ascii ''moe''"
  by (simp add: normalizeString_def ascii_def toLowerASCII_def replaceClass_def keptChar_def
      isSpace_def trim_def)

lemma moe_lost:
  "\<not> similarityThreshold \<le> similarity toLowerASCII (ascii ''moe'') (ascii ''The Crepes of Wrath'')"
proof -
  let ?d = "levenshteinDistance (ascii ''moe'') (ascii ''the crepes of wrath'')"
  have "length (ascii ''the crepes of wrath'') - length (ascii ''moe'')
      \<le> levenshteinDistance (ascii ''the crepes of wrath'') (ascii ''moe'')"
    by (rule levenshteinDistance_ge_diff)
  also have "\<dots> = ?d" by (rule levenshteinDistance_sym)
  finally have "length (ascii ''the crepes of wrath'') - length (ascii ''moe'') \<le> ?d" .
  then have "16 \<le> ?d" by (simp add: ascii_def)
  then have "16 \<le> real ?d" by simp
  then have "1 - real ?d / 19 < 0.75" by simp
  moreover have "ascii ''moe'' \<noteq> ascii ''the crepes of wrath''" by (simp add: ascii_def)
  moreover have "max (length (ascii ''moe'')) (length (ascii ''the crepes of wrath'')) = 19"
    by (simp add: ascii_def)
  ultimately show ?thesis
    by (simp add: similarity_eq normalize_title normalize_moe similarityThreshold_def)
qed

text \<open>
  Claim C2. A submission while the round is not guessed, with a guess that is not empty
  after trimming (and a scene in the round), ends the round with the points before the
  guess if the title is right and 0 if not, plus the season bonus exactly when the
  season guess is supplied (its parsed value is truthy) and equals the season of the
  scene, plus the episode bonus under the same condition on the episode number; the
  title is right when the similarity of the trimmed guess and the title reaches the
  threshold. The bonuses do not depend on the title: a lost title with the right season
  and no episode guess ends with 25 points.
\<close>

theorem submitGuess_final_points:
  assumes "\<not> guessed s" "trim (guessInput els) \<noteq> []" "scene s = Some sc"
  shows "\<exists>s' panel.
     submitGuess lc els s = Inr (s', Some panel)
     \<and> roundPoints s' =
         (if similarity lc (trim (guessInput els)) (Title (Episode sc)) \<ge> similarityThreshold
          then roundPoints s else 0)
         + (if truthy (guessSeason els) \<and> guessSeason els = Num (Season (Episode sc))
            then bonusPoints_season else 0)
         + (if truthy (guessEpisode els) \<and> guessEpisode els = Num (EpisodeNumber (Episode sc))
            then bonusPoints_episode else 0)
     \<and> roundScoreResult panel = roundPoints s'
     \<and> totalPoints s' = totalPoints s + roundPoints s'
     \<and> guessed s'
     \<and> won s' = (similarity lc (trim (guessInput els)) (Title (Episode sc)) \<ge> similarityThreshold)
     \<and> (\<not> won s' \<and> truthy (guessSeason els) \<and> guessSeason els = Num (Season (Episode sc))
          \<and> \<not> truthy (guessEpisode els) \<longrightarrow> roundPoints s' = 25)"
  by (auto simp: submitGuess_active[OF assms] Let_def showResult_def seasonBonus_cases
      episodeBonus_cases bonusPoints_season_def)

text \<open>
  The theorem at the guess \<open>"moe"\<close> with season 1 for "The Crepes of Wrath" of season 1:
  the title is lost and the round ends with 25 points.
\<close>

theorem submitGuess_final_points_witness:
  "\<exists>s' panel.
     submitGuess toLowerASCII guessMoe (initialState\<lparr>scene := Some crepes\<rparr>) = Inr (s', Some panel)
     \<and> roundPoints s' = 25 \<and> roundScoreResult panel = 25 \<and> \<not> won s'"
proof -
  have h1: "\<not> guessed (initialState\<lparr>scene := Some crepes\<rparr>)" by (simp add: initialState_def)
  have h2: "trim (guessInput guessMoe) \<noteq> []" by (simp add: guessMoe_def string_eval)
  have h3: "scene (initialState\<lparr>scene := Some crepes\<rparr>) = Some crepes" by simp
  have t: "trim (guessInput guessMoe) = ascii ''moe''" by (simp add: guessMoe_def string_eval)
  have c: "Title (Episode crepes) = ascii ''The Crepes of Wrath''" "Season (Episode crepes) = 1"
    by (simp_all add: crepes_def)
  have g: "guessSeason guessMoe = Num 1" "guessEpisode guessMoe = NaN" by (simp_all add: guessMoe_def)
  from submitGuess_final_points[OF h1 h2 h3, of toLowerASCII]
  obtain s' panel where
    r: "submitGuess toLowerASCII guessMoe (initialState\<lparr>scene := Some crepes\<rparr>)
          = Inr (s', Some panel)"
      "roundScoreResult panel = roundPoints s'"
      "won s' = (similarityThreshold \<le> similarity toLowerASCII (trim (guessInput guessMoe))
          (Title (Episode crepes)))"
      "\<not> won s' \<and> truthy (guessSeason guessMoe)
         \<and> guessSeason guessMoe = Num (Season (Episode crepes))
         \<and> \<not> truthy (guessEpisode guessMoe) \<longrightarrow> roundPoints s' = 25"
    by blast
  have w: "\<not> won s'" using r(3) moe_lost unfolding t c by simp
  have "roundPoints s' = 25" using r(4) w unfolding c g by simp
  with r(1,2) w show ?thesis by simp
qed

text \<open>
  Claim C10. A season guess whose field gives \<open>NaN\<close> (empty, not a number) or 0 counts
  as not supplied: the points are those of the title and of the episode guess alone,
  and the bonus lines are those of the episode guess alone, none about the season. The
  same holds for the episode guess.
\<close>

theorem structured_guess_zero_or_NaN:
  assumes "\<not> guessed s" "trim (guessInput els) \<noteq> []" "scene s = Some sc"
  shows "\<exists>s' panel.
     submitGuess lc els s = Inr (s', Some panel)
     \<and> (guessSeason els = NaN \<or> guessSeason els = Num 0 \<longrightarrow>
          roundPoints s' = (if won s' then roundPoints s else 0)
            + fst (episodeBonus (guessEpisode els) (EpisodeNumber (Episode sc)))
          \<and> bonusResult panel = snd (episodeBonus (guessEpisode els) (EpisodeNumber (Episode sc)))
          \<and> (\<forall>l \<in> set (bonusResult panel). \<not> aboutSeason l))
     \<and> (guessEpisode els = NaN \<or> guessEpisode els = Num 0 \<longrightarrow>
          roundPoints s' = (if won s' then roundPoints s else 0)
            + fst (seasonBonus (guessSeason els) (Season (Episode sc)))
          \<and> bonusResult panel = snd (seasonBonus (guessSeason els) (Season (Episode sc)))
          \<and> (\<forall>l \<in> set (bonusResult panel). aboutSeason l))"
  by (auto simp: submitGuess_active[OF assms] Let_def showResult_def seasonBonus_cases
      episodeBonus_cases)

text \<open>
  The theorem at a submission whose season field parses to 0 and whose episode field is
  empty: no bonus line, and the points of the title alone.
\<close>

theorem structured_guess_zero_or_NaN_witness:
  "\<exists>s' panel.
     submitGuess toLowerASCII guessCrepes (initialState\<lparr>scene := Some crepes\<rparr>) = Inr (s', Some panel)
     \<and> roundPoints s' = (if won s' then 100 else 0) \<and> bonusResult panel = []"
proof -
  have h1: "\<not> guessed (initialState\<lparr>scene := Some crepes\<rparr>)" by (simp add: initialState_def)
  have h2: "trim (guessInput guessCrepes) \<noteq> []" by (simp add: guessCrepes_def string_eval)
  have h3: "scene (initialState\<lparr>scene := Some crepes\<rparr>) = Some crepes" by simp
  have g: "guessSeason guessCrepes = Num 0" "guessEpisode guessCrepes = NaN"
    by (simp_all add: guessCrepes_def)
  have p: "roundPoints (initialState\<lparr>scene := Some crepes\<rparr>) = 100"
    by (simp add: initialState_def startingPoints_def)
  from structured_guess_zero_or_NaN[OF h1 h2 h3, of toLowerASCII]
  obtain s' panel where
    r: "submitGuess toLowerASCII guessCrepes (initialState\<lparr>scene := Some crepes\<rparr>)
          = Inr (s', Some panel)"
      "guessSeason guessCrepes = NaN \<or> guessSeason guessCrepes = Num 0 \<longrightarrow>
          roundPoints s' = (if won s' then roundPoints (initialState\<lparr>scene := Some crepes\<rparr>) else 0)
            + fst (episodeBonus (guessEpisode guessCrepes) (EpisodeNumber (Episode crepes)))
          \<and> bonusResult panel
              = snd (episodeBonus (guessEpisode guessCrepes) (EpisodeNumber (Episode crepes)))
          \<and> (\<forall>l \<in> set (bonusResult panel). \<not> aboutSeason l)"
    by blast
  from r(2) have "roundPoints s' = (if won s' then 100 else 0) \<and> bonusResult panel = []"
    unfolding g p by (simp add: episodeBonus_cases)
  with r(1) show ?thesis by blast
qed

section \<open>The session average\<close>

lemma revealHint_rounds: "roundsPlayed (revealHint hint s) = roundsPlayed s"
  by (simp add: revealHint_def Let_def)

lemma startNewRound_rounds: "roundsPlayed (startNewRound els env s) = roundsPlayed s"
  by (simp add: startNewRound_def Let_def split: sum.splits)

lemma submitGuess_rounds:
  assumes "0 \<le> roundsPlayed s" "submitGuess lc els s = Inr (s', shown)"
  shows "0 \<le> roundsPlayed s' \<and>
     (\<forall>panel. shown = Some panel \<longrightarrow>
        1 \<le> sessionRounds panel \<and>
        sessionAvg panel = Some (real_of_int (sessionTotal panel) / real_of_int (sessionRounds panel)))"
proof -
  consider "guessed s" | "\<not> guessed s" "trim (guessInput els) = []"
    | "\<not> guessed s" "trim (guessInput els) \<noteq> []" "scene s = None"
    | sc where "\<not> guessed s" "trim (guessInput els) \<noteq> []" "scene s = Some sc"
    by (cases "scene s") auto
  then show ?thesis
  proof cases
    case 1
    with assms show ?thesis by (simp add: submitGuess_def)
  next
    case 2
    with assms show ?thesis by (simp add: submitGuess_def)
  next
    case 3
    with assms show ?thesis by (simp add: submitGuess_def)
  next
    case 4
    have "1 \<le> roundsPlayed s + 1" "roundsPlayed s + 1 \<noteq> 0" using assms(1) by simp_all
    then show ?thesis
      using assms submitGuess_active[OF 4, of lc]
      by (auto simp: Let_def showResult_def)
  qed
qed

lemma handle_rounds:
  assumes "0 \<le> roundsPlayed s" "handle lc e s = (s', shown)"
  shows "0 \<le> roundsPlayed s' \<and>
     (\<forall>panel \<in> set shown.
        1 \<le> sessionRounds panel \<and>
        sessionAvg panel = Some (real_of_int (sessionTotal panel) / real_of_int (sessionRounds panel)))"
proof (cases e)
  case (ClickReveal hint)
  with assms show ?thesis by (auto simp: revealHint_rounds)
next
  case (ClickSubmit els)
  show ?thesis
  proof (cases "submitGuess lc els s")
    case (Inl err)
    with assms ClickSubmit show ?thesis by auto
  next
    case (Inr r)
    obtain s1 p where r: "r = (s1, p)" by (cases r)
    from submitGuess_rounds[OF assms(1) Inr[unfolded r]] assms(2) ClickSubmit Inr r
    show ?thesis by (cases p) auto
  qed
next
  case (ClickNextRound els env)
  with assms show ?thesis by (auto simp: startNewRound_rounds)
qed

lemma run_rounds:
  assumes "0 \<le> roundsPlayed s" "run lc es s = (s', shown)"
  shows "0 \<le> roundsPlayed s' \<and>
     (\<forall>panel \<in> set shown.
        1 \<le> sessionRounds panel \<and>
        sessionAvg panel = Some (real_of_int (sessionTotal panel) / real_of_int (sessionRounds panel)))"
  using assms
proof (induction es arbitrary: s s' shown)
  case Nil
  then show ?case by simp
next
  case (Cons e es)
  obtain s1 shown1 where h: "handle lc e s = (s1, shown1)" by (cases "handle lc e s")
  obtain s2 shown2 where r: "run lc es s1 = (s2, shown2)" by (cases "run lc es s1")
  from Cons.prems(2) h r have eq: "s' = s2" "shown = shown1 @ shown2" by simp_all
  from handle_rounds[OF Cons.prems(1) h] have a: "0 \<le> roundsPlayed s1"
    and b: "\<forall>panel \<in> set shown1. 1 \<le> sessionRounds panel \<and>
        sessionAvg panel = Some (real_of_int (sessionTotal panel) / real_of_int (sessionRounds panel))"
    by simp_all
  from Cons.IH[OF a r] b eq show ?case by auto
qed

text \<open>
  Claim C9. In every run of the page from its initial state, whatever the clicks, the
  inputs and the provider's answers are, each result panel shown has a divisor
  \<open>roundsPlayed\<close> of at least 1, so its average is the quotient of the total by it:
  \<open>showResult\<close> only runs in \<open>submitGuess\<close>, behind the increment. (\<open>startNewRound\<close> does not
  write the two counters, so a click between its fetches changes nothing in this.)
\<close>

theorem average_divisor_at_least_one:
  "\<forall>panel \<in> set (snd (run lc events initialState)).
     1 \<le> sessionRounds panel \<and>
     sessionAvg panel = Some (real_of_int (sessionTotal panel) / real_of_int (sessionRounds panel))"
proof -
  obtain s' shown where r: "run lc events initialState = (s', shown)"
    by (cases "run lc events initialState")
  have "0 \<le> roundsPlayed initialState" by (simp add: initialState_def)
  from run_rounds[OF this r] r show ?thesis by simp
qed

lemma getValidScene_crepes:
  "getValidScene \<lparr>range_min = 1, range_max = 9\<rparr> (\<lambda>k. Response crepes) = (Inr crepes, 1)"
  by (simp add: getValidScene_def getValidScene_loop.simps maxAttempts_def crepes_valid)

text \<open>
  The theorem at a run of three clicks (next round, reveal the season, submit): one
  panel is shown, after one round.
\<close>

theorem average_divisor_at_least_one_witness:
  "\<exists>panel.
     snd (run toLowerASCII
       [ClickNextRound guessMoe (\<lambda>k. Response crepes), ClickReveal season, ClickSubmit guessMoe]
       initialState) = [panel]
     \<and> sessionRounds panel = 1 \<and> sessionAvg panel = Some (real_of_int (sessionTotal panel))"
proof -
  let ?evs = "[ClickNextRound guessMoe (\<lambda>k. Response crepes), ClickReveal season, ClickSubmit guessMoe]"
  have r: "getSeasonRange guessMoe = \<lparr>range_min = 1, range_max = 9\<rparr>"
    by (simp add: getSeasonRange_def guessMoe_def)
  let ?s1 = "startNewRound guessMoe (\<lambda>k. Response crepes) initialState"
  have s1: "scene ?s1 = Some crepes" "\<not> guessed ?s1" "revealed ?s1 = {}"
    "roundPoints ?s1 = 100" "totalPoints ?s1 = 0" "roundsPlayed ?s1 = 0"
    by (simp_all add: startNewRound_def r getValidScene_crepes initialState_def startingPoints_def)
  let ?s2 = "revealHint season ?s1"
  have s2: "scene ?s2 = Some crepes" "\<not> guessed ?s2" "totalPoints ?s2 = 0" "roundsPlayed ?s2 = 0"
    by (simp_all add: revealHint_def s1 Let_def)
  have t: "trim (guessInput guessMoe) \<noteq> []" by (simp add: guessMoe_def string_eval)
  from submitGuess_active[OF s2(2) t s2(1), of toLowerASCII]
  obtain s3 panel where sub: "submitGuess toLowerASCII guessMoe ?s2 = Inr (s3, Some panel)"
    and p: "sessionRounds panel = 1"
    by (simp add: Let_def showResult_def s2)
  have "snd (run toLowerASCII ?evs initialState) = [panel]"
    by (simp add: sub)
  with average_divisor_at_least_one[of toLowerASCII ?evs] p show ?thesis by simp
qed

end
